theory Spec2Isabelle
  imports Complex_Main "HOL-Library.List_Lexorder" "HOL-Library.Log_Nat" "HOL-Library.Word"
begin

section \<open>Text: Python strings as lists of code points\<close>

text \<open>
  A Python \<open>str\<close> is a sequence of Unicode code points, so a text is a list of
  natural numbers (the code points). String literals of the source are written with
  \<open>str\<close>, which maps an ASCII literal to its code points. Python compares strings
  lexicographically by code point; that is the order on lists used here.
\<close>

type_synonym utext = "nat list"

definition str :: "string \<Rightarrow> utext" where
  "str s = map of_char s"

text \<open>The line feed, \<open>"\n"\<close> in the source.\<close>

definition NL :: nat where
  "NL = 10"

text \<open>
  \<open>str.isspace\<close> for one code point: the characters that \<open>str.strip()\<close> removes.
\<close>

definition is_space :: "nat \<Rightarrow> bool" where
  "is_space c \<longleftrightarrow>
     (9 \<le> c \<and> c \<le> 13) \<or> (28 \<le> c \<and> c \<le> 32) \<or> c = 133 \<or> c = 160 \<or> c = 5760 \<or>
     (8192 \<le> c \<and> c \<le> 8202) \<or> c = 8232 \<or> c = 8233 \<or> c = 8239 \<or> c = 8287 \<or> c = 12288"

text \<open>\<open>s.strip()\<close>: leading and trailing white space removed.\<close>

definition strip :: "utext \<Rightarrow> utext" where
  "strip s = rev (dropWhile is_space (rev (dropWhile is_space s)))"

text \<open>
  The line boundaries of \<open>str.splitlines()\<close> other than the carriage return, which is
  treated apart because \<open>"\r\n"\<close> is one boundary.
\<close>

definition is_linebreak :: "nat \<Rightarrow> bool" where
  "is_linebreak c \<longleftrightarrow>
     c = 10 \<or> c = 11 \<or> c = 12 \<or> c = 13 \<or> c = 28 \<or> c = 29 \<or> c = 30 \<or> c = 133 \<or>
     c = 8232 \<or> c = 8233"

text \<open>
  \<open>s.splitlines()\<close>: the first argument is the line read so far. A line is emitted at
  each boundary; what follows the last boundary is a line only when it is not empty.
\<close>

fun splitlines_from :: "utext \<Rightarrow> utext \<Rightarrow> utext list" where
  "splitlines_from cur [] = (if cur = [] then [] else [cur])"
| "splitlines_from cur [c] =
     (if is_linebreak c then [cur] else [cur @ [c]])"
| "splitlines_from cur (c # d # cs) =
     (if c = 13 \<and> d = 10 then cur # splitlines_from [] cs
      else if is_linebreak c then cur # splitlines_from [] (d # cs)
      else splitlines_from (cur @ [c]) (d # cs))"

definition splitlines :: "utext \<Rightarrow> utext list" where
  "splitlines s = splitlines_from [] s"

text \<open>\<open>sep.join(xs)\<close>.\<close>

fun join :: "utext \<Rightarrow> utext list \<Rightarrow> utext" where
  "join sep [] = []"
| "join sep [x] = x"
| "join sep (x # y # ys) = x @ sep @ join sep (y # ys)"

text \<open>\<open>s.startswith(p)\<close>.\<close>

definition startswith :: "utext \<Rightarrow> utext \<Rightarrow> bool" where
  "startswith s p \<longleftrightarrow> take (length p) s = p"

section \<open>The resume optimizer\<close>

text \<open>
  \<^verbatim>\<open>
  def optimize_resume(resume_text: str) -> str:
      lines = [l.strip() for l in (resume_text or "").splitlines() if l.strip()]
      bulletized = [l if l.startswith("-") else f"- {l}" for l in lines]
      header = "SUMMARY\nResults-driven professional with measurable achievements.\n"
      return header + "\n".join(bulletized)
  \<close>
  On a \<open>str\<close>, \<open>resume_text or ""\<close> is \<open>resume_text\<close>.
\<close>

definition header :: utext where
  "header = str ''SUMMARY'' @ [NL] @
     str ''Results-driven professional with measurable achievements.'' @ [NL]"

definition stripped_lines :: "utext \<Rightarrow> utext list" where
  "stripped_lines resume_text =
     map strip (filter (\<lambda>l. strip l \<noteq> []) (splitlines resume_text))"

definition bulletize :: "utext \<Rightarrow> utext" where
  "bulletize l = (if startswith l (str ''-'') then l else str ''- '' @ l)"

definition optimize_resume :: "utext \<Rightarrow> utext" where
  "optimize_resume resume_text =
     (let lines = stripped_lines resume_text;
          bulletized = map bulletize lines
      in header @ join [NL] bulletized)"

text \<open>
  An input that is already bulleted and trimmed, with no blank line: every line of it
  is non-empty, is its own \<open>strip()\<close> and starts with the bullet marker.
\<close>

definition already_bulleted :: "utext \<Rightarrow> bool" where
  "already_bulleted t \<longleftrightarrow>
     list_all (\<lambda>l. l \<noteq> [] \<and> strip l = l \<and> startswith l (str ''-'')) (splitlines t)"

section \<open>Exceptions\<close>

text \<open>
  The exceptions of the model, with their messages: \<open>ValueError\<close> for a bad argument,
  \<open>RuntimeError\<close> for the missing optional library, \<open>UnicodeEncodeError\<close> from
  \<open>str.encode\<close>, \<open>ZeroDivisionError\<close> from a division, and \<open>LibraryError\<close> for an
  exception raised inside a rendering library. A function that can raise returns a sum,
  with the exception on the left.
\<close>

datatype py_error =
    ValueError utext
  | RuntimeError utext
  | UnicodeEncodeError
  | ZeroDivisionError
  | LibraryError utext

section \<open>Floating-point numbers\<close>

text \<open>
  A Python \<open>float\<close> is an IEEE 754 binary64 number. A finite one is modelled by the
  rational number it denotes, and every operation rounds its exact result to the
  nearest number with a significand of 53 bits, ties to the even significand. The
  exponent is not bounded here: overflow (the \<open>OverflowError\<close> of converting an \<open>int\<close>
  of 1024 bits or more) and subnormal numbers are out of the model. The analyzer only
  converts and divides counts (lengths of sets and lists, which are below \<open>2\<^sup>6\<^sup>3\<close>) and
  rounds percentages, and all of that is within the normal range.
\<close>

text \<open>The nearest integer, a tie going to the even one.\<close>

definition round_half_even :: "rat \<Rightarrow> int" where
  "round_half_even q =
     (let f = \<lfloor>q\<rfloor>; r = q - of_int f
      in if r < 1 / 2 then f else if 1 / 2 < r then f + 1 else if even f then f else f + 1)"

text \<open>
  For a positive \<open>q\<close>, the exponent \<open>e\<close> with \<open>2\<^sup>e \<le> q < 2\<^sup>e\<^sup>+\<^sup>1\<close>, computed from the bit
  lengths of the numerator and the denominator.
\<close>

definition ilog2 :: "rat \<Rightarrow> int" where
  "ilog2 q =
     (let (n, d) = quotient_of q; k = bitlen n - bitlen d
      in if 2 powi k \<le> q then k else k - 1)"

text \<open>Rounding to binary64: the significand is scaled to 53 bits and rounded.\<close>

definition fl :: "rat \<Rightarrow> rat" where
  "fl q =
     (if q = 0 then 0
      else let e = ilog2 \<bar>q\<bar> - 52
           in of_int (round_half_even (q / 2 powi e)) * 2 powi e)"

text \<open>
  The arithmetic of the source: the conversion of an \<open>int\<close> to a \<open>float\<close> (implicit in
  \<open>100.0 * overlap\<close> and in \<open>... / denom\<close>), the product, the difference, and the
  quotient, which raises \<open>ZeroDivisionError\<close> on a zero divisor.
\<close>

definition float_of_int :: "int \<Rightarrow> rat" where
  "float_of_int n = fl (of_int n)"

definition fmul :: "rat \<Rightarrow> rat \<Rightarrow> rat" where
  "fmul a b = fl (a * b)"

definition fsub :: "rat \<Rightarrow> rat \<Rightarrow> rat" where
  "fsub a b = fl (a - b)"

definition fdiv :: "rat \<Rightarrow> rat \<Rightarrow> py_error + rat" where
  "fdiv a b = (if b = 0 then Inl ZeroDivisionError else Inr (fl (a / b)))"

text \<open>
  \<open>round(x, ndigits)\<close> for a float and \<open>ndigits \<ge> 0\<close>: the exact value of \<open>x\<close> is rounded
  to \<open>ndigits\<close> decimals, a tie going to the even digit, and the decimal obtained is
  converted to the nearest float.
\<close>

definition py_round :: "rat \<Rightarrow> nat \<Rightarrow> rat" where
  "py_round x ndigits =
     fl (of_int (round_half_even (x * 10 ^ ndigits)) / 10 ^ ndigits)"

section \<open>The tokenizer and the skill extractor\<close>

text \<open>
  \<open>str.lower()\<close>. The letters \<open>A\<close> to \<open>Z\<close> become \<open>a\<close> to \<open>z\<close>. Beyond ASCII, the
  Kelvin sign (U+212A) becomes \<open>k\<close> and the dotted capital I (U+0130) becomes \<open>i\<close>
  followed by the combining dot (U+0307); these are the only code points beyond ASCII
  whose lowercase contains an ASCII character. Every other code point beyond ASCII has a
  lowercase beyond ASCII and is left as it is here, so a lowercased text is equal to an
  ASCII literal here exactly when it is in Python. On the characters of a token (the
  class of the splitting pattern) this is \<open>str.lower()\<close> itself.
\<close>

definition lower_cp :: "nat \<Rightarrow> nat list" where
  "lower_cp c =
     (if 65 \<le> c \<and> c \<le> 90 then [c + 32]
      else if c = 8490 then [107]
      else if c = 304 then [105, 775]
      else [c])"

definition lower :: "utext \<Rightarrow> utext" where
  "lower s = concat (map lower_cp s)"

text \<open>
  \<^verbatim>\<open>_WORD_SPLIT_RE = re.compile(r"[^a-zA-Z0-9\+\#]+")\<close>: a delimiter is a non-empty
  run of characters outside the class below.
\<close>

definition is_word_char :: "nat \<Rightarrow> bool" where
  "is_word_char c \<longleftrightarrow>
     (97 \<le> c \<and> c \<le> 122) \<or> (65 \<le> c \<and> c \<le> 90) \<or> (48 \<le> c \<and> c \<le> 57) \<or>
     c = 43 \<or> c = 35"

text \<open>
  \<open>_WORD_SPLIT_RE.split(text)\<close>: the pieces between the delimiters, from left to right.
  The first argument is the piece read so far. A delimiter at the start or at the end of
  the text leaves an empty piece there, and the empty text has one empty piece.
\<close>

function re_split_from :: "utext \<Rightarrow> utext \<Rightarrow> utext list" where
  "re_split_from cur [] = [cur]"
| "re_split_from cur (c # cs) =
     (if is_word_char c then re_split_from (cur @ [c]) cs
      else cur # re_split_from [] (dropWhile (\<lambda>d. \<not> is_word_char d) cs))"
  by pat_completeness auto
termination
  by (relation "measure (\<lambda>(cur, s). length s)")
    (auto simp: le_imp_less_Suc length_dropWhile_le)

definition re_split :: "utext \<Rightarrow> utext list" where
  "re_split s = re_split_from [] s"

definition KNOWN_SKILLS :: "utext set" where
  "KNOWN_SKILLS = set (map str
     [''python'', ''fastapi'', ''flask'', ''django'', ''sql'', ''nosql'', ''mongodb'',
      ''postgresql'', ''docker'', ''kubernetes'', ''aws'', ''gcp'', ''azure'', ''ci/cd'',
      ''github actions'', ''unit testing'', ''pytest'', ''rest'', ''graphql'', ''redis'',
      ''celery'', ''rabbitmq'', ''nlp'', ''machine learning'', ''data science'', ''pandas'',
      ''numpy'', ''transformers''])"

text \<open>
  \<^verbatim>\<open>
  def _normalize(text: str) -> List[str]:
      tokens = [t.strip().lower() for t in _WORD_SPLIT_RE.split(text) if t.strip()]
      merged: List[str] = []
      i = 0
      while i < len(tokens):
          current = tokens[i]
          nxt = tokens[i + 1] if i + 1 < len(tokens) else None
          if nxt and f"{current} {nxt}" in KNOWN_SKILLS:
              merged.append(f"{current} {nxt}")
              i += 2
          else:
              merged.append(current)
              i += 1
      return merged
  \<close>
  The loop over the index \<open>i\<close> is the recursion of \<open>merge_skills\<close> over the tokens from
  \<open>i\<close> on; with one token left, \<open>nxt\<close> is \<open>None\<close> and the token is kept.
\<close>

definition tokens_of :: "utext \<Rightarrow> utext list" where
  "tokens_of s = map (\<lambda>t. lower (strip t)) (filter (\<lambda>t. strip t \<noteq> []) (re_split s))"

fun merge_skills :: "utext list \<Rightarrow> utext list" where
  "merge_skills [] = []"
| "merge_skills [current] = [current]"
| "merge_skills (current # nxt # rest) =
     (if nxt \<noteq> [] \<and> current @ str '' '' @ nxt \<in> KNOWN_SKILLS
      then (current @ str '' '' @ nxt) # merge_skills rest
      else current # merge_skills (nxt # rest))"

definition normalize_text :: "utext \<Rightarrow> utext list" where
  "normalize_text s = merge_skills (tokens_of s)"

text \<open>
  \<^verbatim>\<open>
  def _extract_skills(text: str) -> Set[str]:
      tokens = _normalize(text)
      present = set()
      for token in tokens:
          if token in KNOWN_SKILLS:
              present.add(token)
      return present
  \<close>
\<close>

definition extract_skills :: "utext \<Rightarrow> utext set" where
  "extract_skills s = set (filter (\<lambda>token. token \<in> KNOWN_SKILLS) (normalize_text s))"

section \<open>The analyzer\<close>

record analysis =
  match_percent :: rat
  missing_skills :: "utext list"
  suggestions :: "utext list"
  ats_score :: rat

text \<open>\<open>round(100.0 * overlap / denom, 1)\<close>, for the two counts \<open>overlap\<close> and \<open>denom\<close>.\<close>

definition percent :: "nat \<Rightarrow> nat \<Rightarrow> py_error + rat" where
  "percent overlap denom =
     (case fdiv (fmul 100 (float_of_int (int overlap))) (float_of_int (int denom)) of
        Inl err \<Rightarrow> Inl err
      | Inr x \<Rightarrow> Inr (py_round x 1))"

text \<open>
  \<^verbatim>\<open>
  def analyze_resume(resume_text: str, job_description: str) -> Dict[str, object]:
      resume_skills = _extract_skills(resume_text)
      job_skills = _extract_skills(job_description)

      if not job_skills:
          resume_tokens = set(_normalize(resume_text))
          job_tokens = set(_normalize(job_description))
          overlap = len(resume_tokens & job_tokens)
          denom = max(1, len(job_tokens))
          match_percent = round(100.0 * overlap / denom, 1)
          missing_skills: List[str] = []
      else:
          overlap = len(resume_skills & job_skills)
          denom = max(1, len(job_skills))
          match_percent = round(100.0 * overlap / denom, 1)
          missing_skills = sorted(list(job_skills - resume_skills))

      suggestions: List[str] = []
      if match_percent < 60:
          suggestions.append("Highlight relevant experience and ...")
      if missing_skills:
          suggestions.append(
              f"Consider learning or emphasizing: {', '.join(missing_skills[:8])}")
      if "python" in resume_skills and "fastapi" not in resume_skills:
          suggestions.append("Add FastAPI projects or APIs to showcase backend skills.")
      if "docker" in resume_skills and "kubernetes" not in resume_skills:
          suggestions.append("Explore Kubernetes basics to complement Docker skills.")

      penalty = min(30.0, 5.0 * len(missing_skills))
      ats_score = round(max(0.0, min(100.0, match_percent - penalty)), 1)

      return {
          "match_percent": match_percent,
          "missing_skills": missing_skills,
          "suggestions": suggestions or ["Great alignment. Ensure resume is ..."],
          "ats_score": ats_score,
      }
  \<close>
  The first part computes the match and the missing skills, and raises if the division
  does; the second part, \<open>report\<close>, builds the result from them. The local variables
  \<open>match_percent\<close>, \<open>missing_skills\<close>, \<open>suggestions\<close> and \<open>ats_score\<close> of the source
  are \<open>mp\<close>, \<open>missing\<close>, \<open>suggs\<close> and \<open>ats\<close> here; the fields of the result keep the
  names of the keys.
\<close>

definition match_and_missing :: "utext \<Rightarrow> utext \<Rightarrow> py_error + rat \<times> utext list" where
  "match_and_missing resume_text job_description =
     (let resume_skills = extract_skills resume_text;
          job_skills = extract_skills job_description
      in if job_skills = {} then
           (let resume_tokens = set (normalize_text resume_text);
                job_tokens = set (normalize_text job_description);
                overlap = card (resume_tokens \<inter> job_tokens);
                denom = max 1 (card job_tokens)
            in case percent overlap denom of
                 Inl err \<Rightarrow> Inl err
               | Inr mp \<Rightarrow> Inr (mp, []))
         else
           (let overlap = card (resume_skills \<inter> job_skills);
                denom = max 1 (card job_skills)
            in case percent overlap denom of
                 Inl err \<Rightarrow> Inl err
               | Inr mp \<Rightarrow>
                   Inr (mp, sorted_list_of_set (job_skills - resume_skills))))"

definition suggestions_for :: "utext set \<Rightarrow> rat \<Rightarrow> utext list \<Rightarrow> utext list" where
  "suggestions_for resume_skills mp missing =
     (if mp < 60
      then [str ''Highlight relevant experience and quantify achievements with metrics (%, $, time).'']
      else []) @
     (if missing \<noteq> []
      then [str ''Consider learning or emphasizing: '' @
              join (str '', '') (take 8 missing)]
      else []) @
     (if str ''python'' \<in> resume_skills \<and> str ''fastapi'' \<notin> resume_skills
      then [str ''Add FastAPI projects or APIs to showcase backend skills.'']
      else []) @
     (if str ''docker'' \<in> resume_skills \<and> str ''kubernetes'' \<notin> resume_skills
      then [str ''Explore Kubernetes basics to complement Docker skills.'']
      else [])"

definition report :: "utext set \<Rightarrow> rat \<Rightarrow> utext list \<Rightarrow> analysis" where
  "report resume_skills mp missing =
     (let suggs = suggestions_for resume_skills mp missing;
          penalty = min 30 (fmul 5 (float_of_int (int (length missing))));
          ats = py_round (max 0 (min 100 (fsub mp penalty))) 1
      in \<lparr>match_percent = mp,
          missing_skills = missing,
          suggestions =
            (if suggs = []
             then [str ''Great alignment. Ensure resume is concise (1-2 pages) and well-formatted.'']
             else suggs),
          ats_score = ats\<rparr>)"

definition analyze_resume :: "utext \<Rightarrow> utext \<Rightarrow> py_error + analysis" where
  "analyze_resume resume_text job_description =
     (case match_and_missing resume_text job_description of
        Inl err \<Rightarrow> Inl err
      | Inr (mp, missing) \<Rightarrow> Inr (report (extract_skills resume_text) mp missing))"

section \<open>The document exporter\<close>

type_synonym byte = "8 word"

text \<open>
  \<open>s.encode("utf-8")\<close>, whose error handler is \<open>strict\<close>: a surrogate code point
  (U+D800 to U+DFFF), which a Python \<open>str\<close> can hold, has no UTF-8 encoding and raises
  \<open>UnicodeEncodeError\<close>. Code points end at U+10FFFF; a larger number is in no \<open>str\<close>.
\<close>

definition utf8_char :: "nat \<Rightarrow> py_error + byte list" where
  "utf8_char c =
     (if c < 128 then Inr [of_nat c]
      else if c < 2048 then Inr [of_nat (192 + c div 64), of_nat (128 + c mod 64)]
      else if 55296 \<le> c \<and> c \<le> 57343 then Inl UnicodeEncodeError
      else if c < 65536 then
        Inr [of_nat (224 + c div 4096), of_nat (128 + c div 64 mod 64),
             of_nat (128 + c mod 64)]
      else if c < 1114112 then
        Inr [of_nat (240 + c div 262144), of_nat (128 + c div 4096 mod 64),
             of_nat (128 + c div 64 mod 64), of_nat (128 + c mod 64)]
      else Inl UnicodeEncodeError)"

fun utf8_encode :: "utext \<Rightarrow> py_error + byte list" where
  "utf8_encode [] = Inr []"
| "utf8_encode (c # cs) =
     (case utf8_char c of
        Inl e \<Rightarrow> Inl e
      | Inr bs \<Rightarrow> (case utf8_encode cs of Inl e \<Rightarrow> Inl e | Inr rest \<Rightarrow> Inr (bs @ rest)))"

text \<open>
  \<open>text.encode("latin-1", "replace").decode("latin-1")\<close>: a character beyond Latin-1
  becomes a question mark.
\<close>

definition to_latin1 :: "utext \<Rightarrow> utext" where
  "to_latin1 s = map (\<lambda>c. if c < 256 then c else 63) s"

text \<open>\<open>s.split("\n\n")\<close>: the pieces between the blank-line separators, from the left.\<close>

fun split_paragraphs_from :: "utext \<Rightarrow> utext \<Rightarrow> utext list" where
  "split_paragraphs_from cur [] = [cur]"
| "split_paragraphs_from cur [c] = [cur @ [c]]"
| "split_paragraphs_from cur (c # d # cs) =
     (if c = 10 \<and> d = 10 then cur # split_paragraphs_from [] cs
      else split_paragraphs_from (cur @ [c]) (d # cs))"

definition split_paragraphs :: "utext \<Rightarrow> utext list" where
  "split_paragraphs s = split_paragraphs_from [] s"

text \<open>
  The runtime environment of the exporter: whether the import of the optional library
  \<open>docx\<close> succeeded (\<open>_DOCX_AVAILABLE\<close>), and the two rendering libraries, each taking the
  title and the paragraphs and giving the bytes of the document or an exception.
\<close>

record env =
  DOCX_AVAILABLE :: bool
  fpdf_render :: "utext \<Rightarrow> utext list \<Rightarrow> py_error + byte list"
  docx_render :: "utext \<Rightarrow> utext list \<Rightarrow> py_error + byte list"

text \<open>
  \<^verbatim>\<open>
  def generate_resume_pdf(resume_text: str) -> bytes:
      pdf = FPDF()
      ...
      pdf.cell(0, 10, _to_latin1("Resume"), ln=True)
      ...
      safe_text = _to_latin1(resume_text or "(No content provided)")
      for paragraph in safe_text.split("\n\n"):
          pdf.multi_cell(0, 6, paragraph)
          pdf.ln(1)
      ...
  \<close>
\<close>

definition generate_resume_pdf :: "env \<Rightarrow> utext \<Rightarrow> py_error + byte list" where
  "generate_resume_pdf e resume_text =
     (let safe_text =
        to_latin1 (if resume_text = [] then str ''(No content provided)'' else resume_text)
      in fpdf_render e (to_latin1 (str ''Resume'')) (split_paragraphs safe_text))"

text \<open>
  \<^verbatim>\<open>
  def generate_resume_bytes(resume_text: str, fmt: str) -> Tuple[bytes, str, str]:
      fmt = (fmt or "pdf").lower()
      if fmt == "pdf":
          pdf_bytes = generate_resume_pdf(resume_text)
          return pdf_bytes, "application/pdf", "resume.pdf"
      if fmt == "txt":
          return (resume_text or "").encode("utf-8"), "text/plain; charset=utf-8", "resume.txt"
      if fmt == "docx":
          if not _DOCX_AVAILABLE:
              raise RuntimeError("DOCX export requires python-docx. Please install it.")
          doc = Document()
          doc.add_heading("Resume", level=1)
          for para in (resume_text or "").split("\n\n"):
              doc.add_paragraph(para)
          buf = BytesIO()
          doc.save(buf)
          return buf.getvalue(), "application/vnd...wordprocessingml.document", "resume.docx"
      raise ValueError("Unsupported format")
  \<close>
\<close>

definition generate_resume_bytes ::
  "env \<Rightarrow> utext \<Rightarrow> utext \<Rightarrow> py_error + (byte list \<times> utext \<times> utext)" where
  "generate_resume_bytes e resume_text fmt0 =
     (let fmt = lower (if fmt0 = [] then str ''pdf'' else fmt0) in
      if fmt = str ''pdf'' then
        (case generate_resume_pdf e resume_text of
           Inl err \<Rightarrow> Inl err
         | Inr pdf_bytes \<Rightarrow> Inr (pdf_bytes, str ''application/pdf'', str ''resume.pdf''))
      else if fmt = str ''txt'' then
        (case utf8_encode resume_text of
           Inl err \<Rightarrow> Inl err
         | Inr bs \<Rightarrow> Inr (bs, str ''text/plain; charset=utf-8'', str ''resume.txt''))
      else if fmt = str ''docx'' then
        (if \<not> DOCX_AVAILABLE e then
           Inl (RuntimeError (str ''DOCX export requires python-docx. Please install it.''))
         else
           (case docx_render e (str ''Resume'') (split_paragraphs resume_text) of
              Inl err \<Rightarrow> Inl err
            | Inr bs \<Rightarrow>
                Inr (bs,
                  str ''application/vnd.openxmlformats-officedocument.wordprocessingml.document'',
                  str ''resume.docx'')))
      else Inl (ValueError (str ''Unsupported format'')))"

text \<open>A text that \<open>str.encode("utf-8")\<close> accepts: code points that are not surrogates.\<close>

definition encodable :: "utext \<Rightarrow> bool" where
  "encodable s = list_all (\<lambda>c. c < 1114112 \<and> \<not> (55296 \<le> c \<and> c \<le> 57343)) s"

text \<open>A runtime without the optional library, whose PDF library renders nothing.\<close>

definition plain_env :: env where
  "plain_env =
     \<lparr>DOCX_AVAILABLE = False,
      fpdf_render = (\<lambda>title paragraphs. Inr []),
      docx_render = (\<lambda>title paragraphs. Inl (LibraryError (str ''no docx'')))\<rparr>"

section \<open>Properties of the rounding\<close>

lemma rhe_upper: "of_int (round_half_even q) \<le> q + 1 / 2"
  unfolding round_half_even_def Let_def by (simp; linarith)

lemma rhe_lower: "q - 1 / 2 \<le> of_int (round_half_even q)"
  unfolding round_half_even_def Let_def by (simp; linarith)

lemma rhe_of_int [simp]: "round_half_even (of_int k) = k"
  by (simp add: round_half_even_def)

lemma rhe_mono: "q \<le> r \<Longrightarrow> round_half_even q \<le> round_half_even r"
proof -
  assume le: "q \<le> r"
  then have fl_le: "\<lfloor>q\<rfloor> \<le> \<lfloor>r\<rfloor>" by (rule floor_mono)
  show ?thesis
  proof (cases "\<lfloor>q\<rfloor> = \<lfloor>r\<rfloor>")
    case True
    with le show ?thesis
      unfolding round_half_even_def Let_def by (simp; linarith)
  next
    case False
    with fl_le have "\<lfloor>q\<rfloor> + 1 \<le> \<lfloor>r\<rfloor>" by simp
    moreover have "round_half_even q \<le> \<lfloor>q\<rfloor> + 1"
      unfolding round_half_even_def Let_def by simp
    moreover have "\<lfloor>r\<rfloor> \<le> round_half_even r"
      unfolding round_half_even_def Let_def by simp
    ultimately show ?thesis by linarith
  qed
qed

lemma bitlen_rat_bounds:
  assumes "0 < n"
  shows "(2::rat) powi (bitlen n - 1) \<le> of_int n" "of_int n < (2::rat) powi bitlen n"
proof -
  from assms have b: "1 \<le> bitlen n" by (auto simp: bitlen_alt_def)
  from bitlen_bounds [OF assms] have lo: "2 ^ nat (bitlen n - 1) \<le> n"
    and hi: "n < 2 ^ nat (bitlen n)" by simp_all
  from lo have "(of_int (2 ^ nat (bitlen n - 1)) :: rat) \<le> of_int n"
    by (simp only: of_int_le_iff)
  with b show "(2::rat) powi (bitlen n - 1) \<le> of_int n"
    by (simp add: power_int_def)
  from hi have "(of_int n :: rat) < of_int (2 ^ nat (bitlen n))"
    by (simp only: of_int_less_iff)
  with b show "of_int n < (2::rat) powi bitlen n"
    by (simp add: power_int_def)
qed

lemma ilog2_bounds:
  assumes "0 < q"
  shows "2 powi ilog2 q \<le> q" "q < 2 powi (ilog2 q + 1)"
proof -
  obtain n d where nd: "quotient_of q = (n, d)" by (cases "quotient_of q")
  then have d: "0 < d" and q: "q = of_int n / of_int d"
    by (simp_all add: quotient_of_denom_pos quotient_of_div)
  with assms have n: "0 < n" by (simp add: zero_less_divide_iff)
  define k where "k = bitlen n - bitlen d"
  have il: "ilog2 q = (if 2 powi k \<le> q then k else k - 1)"
    by (simp add: ilog2_def nd k_def)
  note bn = bitlen_rat_bounds [OF n] and bd = bitlen_rat_bounds [OF d]
  have dpos: "(0::rat) < of_int d" using d by simp
  have "q < 2 powi bitlen n / 2 powi (bitlen d - 1)"
    unfolding q using bn(2) bd(1) dpos n
    by (intro frac_less) simp_all
  also have "\<dots> = 2 powi (k + 1)"
    by (simp add: k_def power_int_diff [symmetric] algebra_simps)
  finally have up: "q < 2 powi (k + 1)" .
  have "2 powi (k - 1) = (2::rat) powi (bitlen n - 1) / 2 powi bitlen d"
    by (simp add: k_def power_int_diff [symmetric] algebra_simps)
  also have "\<dots> \<le> q"
    unfolding q using bn(1) bd(2) dpos n
    by (intro frac_le) simp_all
  finally have lo: "2 powi (k - 1) \<le> q" .
  show "2 powi ilog2 q \<le> q" using lo by (simp add: il)
  show "q < 2 powi (ilog2 q + 1)" using up by (auto simp: il not_le)
qed

lemma pow2_mono: "a \<le> b \<Longrightarrow> (2::rat) powi a \<le> 2 powi b"
  by (rule power_int_increasing) simp_all

lemma pow2_less_imp: "(2::rat) powi a < 2 powi b \<Longrightarrow> a < b"
  using pow2_mono [of b a] by (cases "a < b") simp_all

lemma ilog2_mono:
  assumes "0 < q" "q \<le> r"
  shows "ilog2 q \<le> ilog2 r"
proof -
  from assms have "0 < r" by simp
  from ilog2_bounds(1) [OF assms(1)] assms(2) ilog2_bounds(2) [OF \<open>0 < r\<close>]
  have "(2::rat) powi ilog2 q < 2 powi (ilog2 r + 1)" by simp
  then show ?thesis using pow2_less_imp by fastforce
qed

lemma pow2_shift:
  "(2::rat) ^ 52 * 2 powi (l - 52) = 2 powi l" "(2::rat) ^ 53 * 2 powi (l - 52) = 2 powi (l + 1)"
proof -
  have "(2::rat) powi 52 * 2 powi (l - 52) = 2 powi (52 + (l - 52))"
    by (rule power_int_add [symmetric]) simp
  then show "(2::rat) ^ 52 * 2 powi (l - 52) = 2 powi l" by simp
  have "(2::rat) powi 53 * 2 powi (l - 52) = 2 powi (53 + (l - 52))"
    by (rule power_int_add [symmetric]) simp
  moreover have "53 + (l - 52) = l + 1" by simp
  ultimately show "(2::rat) ^ 53 * 2 powi (l - 52) = 2 powi (l + 1)" by simp
qed

lemma fl_scaled:
  assumes "0 < q"
  defines "e \<equiv> ilog2 q - 52"
  shows "fl q = of_int (round_half_even (q / 2 powi e)) * 2 powi e"
    "2 ^ 52 \<le> q / 2 powi e" "q / 2 powi e < 2 ^ 53"
proof -
  from assms(1) show "fl q = of_int (round_half_even (q / 2 powi e)) * 2 powi e"
    by (simp add: fl_def e_def Let_def)
  have s: "(0::rat) < 2 powi e" by simp
  have "(2::rat) ^ 52 * 2 powi e = 2 powi ilog2 q"
    unfolding e_def by (rule pow2_shift)
  with ilog2_bounds(1) [OF assms(1)] have "(2::rat) ^ 52 * 2 powi e \<le> q" by simp
  with s show "2 ^ 52 \<le> q / 2 powi e" by (simp add: pos_le_divide_eq)
  have "(2::rat) ^ 53 * 2 powi e = 2 powi (ilog2 q + 1)"
    unfolding e_def by (rule pow2_shift)
  with ilog2_bounds(2) [OF assms(1)] have "q < (2::rat) ^ 53 * 2 powi e" by simp
  with s show "q / 2 powi e < 2 ^ 53" by (simp add: pos_divide_less_eq)
qed

lemma rhe_ge_int: "of_int k \<le> q \<Longrightarrow> k \<le> round_half_even q"
  using rhe_mono [of "of_int k" q] by simp

lemma rhe_le_int: "q \<le> of_int k \<Longrightarrow> round_half_even q \<le> k"
  using rhe_mono [of q "of_int k"] by simp

lemma fl_range:
  assumes "0 < q"
  shows "2 powi ilog2 q \<le> fl q" "fl q \<le> 2 powi (ilog2 q + 1)"
proof -
  define e where "e = ilog2 q - 52"
  note sc = fl_scaled [OF assms, folded e_def]
  have s: "(0::rat) < 2 powi e" by simp
  from sc(2) have "2 ^ 52 \<le> round_half_even (q / 2 powi e)"
    using rhe_ge_int [of "2 ^ 52" "q / 2 powi e"] by simp
  then have "(2::rat) ^ 52 \<le> of_int (round_half_even (q / 2 powi e))"
    using of_int_le_iff [of "2 ^ 52" "round_half_even (q / 2 powi e)", where ?'a = rat]
    by simp
  then have "(2::rat) ^ 52 * 2 powi e \<le> fl q"
    unfolding sc(1) using s by (simp only: mult_le_cancel_right_pos)
  moreover have "(2::rat) ^ 52 * 2 powi e = 2 powi ilog2 q"
    unfolding e_def by (rule pow2_shift)
  ultimately show "2 powi ilog2 q \<le> fl q" by simp
  from sc(3) have "round_half_even (q / 2 powi e) \<le> 2 ^ 53"
    using rhe_le_int [of "q / 2 powi e" "2 ^ 53"] by simp
  then have "of_int (round_half_even (q / 2 powi e)) \<le> (2::rat) ^ 53"
    using of_int_le_iff [of "round_half_even (q / 2 powi e)" "2 ^ 53", where ?'a = rat]
    by simp
  then have "fl q \<le> (2::rat) ^ 53 * 2 powi e"
    unfolding sc(1) using s by (simp only: mult_le_cancel_right_pos)
  moreover have "(2::rat) ^ 53 * 2 powi e = 2 powi (ilog2 q + 1)"
    unfolding e_def by (rule pow2_shift)
  ultimately show "fl q \<le> 2 powi (ilog2 q + 1)" by simp
qed

lemma fl_pos: "0 < q \<Longrightarrow> 0 < fl q"
  using fl_range(1) [of q] zero_less_power_int [of "2::rat" "ilog2 q"] by linarith

lemma fl_mono_pos:
  assumes "0 < q" "q \<le> r"
  shows "fl q \<le> fl r"
proof -
  from assms have r: "0 < r" by simp
  show ?thesis
  proof (cases "ilog2 q = ilog2 r")
    case True
    define e where "e = ilog2 q - 52"
    have s: "(0::rat) < 2 powi e" by simp
    from assms(2) s have "q / 2 powi e \<le> r / 2 powi e"
      by (intro divide_right_mono) simp_all
    then have "round_half_even (q / 2 powi e) \<le> round_half_even (r / 2 powi e)"
      by (rule rhe_mono)
    then have "(of_int (round_half_even (q / 2 powi e)) :: rat) \<le>
        of_int (round_half_even (r / 2 powi e))"
      by (simp only: of_int_le_iff)
    with s have "(of_int (round_half_even (q / 2 powi e)) :: rat) * 2 powi e \<le>
        of_int (round_half_even (r / 2 powi e)) * 2 powi e"
      by (simp only: mult_le_cancel_right_pos)
    then show ?thesis
      using fl_scaled(1) [OF assms(1)] fl_scaled(1) [OF r] True by (simp add: e_def)
  next
    case False
    with ilog2_mono [OF assms] have "ilog2 q + 1 \<le> ilog2 r" by simp
    then have "(2::rat) powi (ilog2 q + 1) \<le> 2 powi ilog2 r" by (rule pow2_mono)
    with fl_range(2) [OF assms(1)] fl_range(1) [OF r] show ?thesis by linarith
  qed
qed

lemma fl_zero [simp]: "fl 0 = 0"
  by (simp add: fl_def)

lemma fl_nonneg: "0 \<le> q \<Longrightarrow> 0 \<le> fl q"
  using fl_pos [of q] by (cases "q = 0") simp_all

lemma fl_mono_nonneg:
  assumes "0 \<le> q" "q \<le> r"
  shows "fl q \<le> fl r"
proof (cases "q = 0")
  case True
  with assms fl_nonneg [of r] show ?thesis by simp
next
  case False
  with assms have "0 < q" by simp
  then show ?thesis using assms(2) by (rule fl_mono_pos)
qed

lemma fl_nonpos:
  assumes "q \<le> 0"
  shows "fl q \<le> 0"
proof (cases "q = 0")
  case True
  then show ?thesis by simp
next
  case False
  define e where "e = ilog2 \<bar>q\<bar> - 52"
  have s: "(0::rat) < 2 powi e" by simp
  from assms s have "q / 2 powi e \<le> of_int 0" by (simp add: divide_le_0_iff)
  then have "round_half_even (q / 2 powi e) \<le> 0" by (rule rhe_le_int)
  then have "(of_int (round_half_even (q / 2 powi e)) :: rat) \<le> 0" by simp
  with s have "(of_int (round_half_even (q / 2 powi e)) :: rat) * 2 powi e \<le> 0"
    by (simp add: mult_le_0_iff)
  with False show ?thesis by (simp add: fl_def e_def Let_def)
qed

lemma fl_rel_upper:
  assumes "0 < q"
  shows "fl q \<le> q * (1 + 1 / 2 ^ 53)"
proof -
  define e where "e = ilog2 q - 52"
  define y where "y = q / 2 powi e"
  note sc = fl_scaled [OF assms, folded e_def, folded y_def]
  have s: "(0::rat) < 2 powi e" by simp
  have "of_int (round_half_even y) \<le> y + 1 / 2" by (rule rhe_upper)
  also from sc(2) have "\<dots> \<le> y + y / 2 ^ 53" by simp
  finally have scaled:
    "of_int (round_half_even y) * 2 powi e \<le> (y + y / 2 ^ 53) * 2 powi e"
    using s by (simp only: mult_le_cancel_right_pos)
  have q: "y * 2 powi e = q" by (simp add: y_def)
  have "(y + y / 2 ^ 53) * 2 powi e = y * 2 powi e + y * 2 powi e / 2 ^ 53"
    by (simp add: distrib_right)
  then have total: "(y + y / 2 ^ 53) * 2 powi e = q * (1 + 1 / 2 ^ 53)"
    unfolding q by (simp add: distrib_left)
  from scaled show ?thesis
    unfolding sc(1) total .
qed

lemma fl_int:
  assumes "0 \<le> k" "k < 2 ^ 53"
  shows "fl (of_int k) = of_int k"
proof (cases "k = 0")
  case True
  then show ?thesis by simp
next
  case False
  with assms have k: "(0::rat) < of_int k" by simp
  define e where "e = ilog2 (of_int k) - 52"
  note sc = fl_scaled [OF k, folded e_def]
  from assms(2) have "(of_int k :: rat) < 2 ^ 53"
    using of_int_less_iff [of k "2 ^ 53", where ?'a = rat] by simp
  with ilog2_bounds(1) [OF k] have "(2::rat) powi ilog2 (of_int k) < 2 powi 53" by simp
  then have "ilog2 (of_int k) < 53" by (rule pow2_less_imp)
  then have e: "e \<le> 0" by (simp add: e_def)
  then have "(2::rat) powi e = 1 / 2 ^ nat (- e)"
    using power_int_minus_divide [of "2::rat" "- e"] by (simp add: power_int_def)
  then have "of_int k / (2::rat) powi e = of_int (k * 2 ^ nat (- e))" by simp
  then have "round_half_even (of_int k / 2 powi e) = k * 2 ^ nat (- e)"
    by (simp only: rhe_of_int)
  then have "fl (of_int k) = of_int (k * 2 ^ nat (- e)) * 2 powi e"
    unfolding sc(1) by simp
  also have "\<dots> = of_int k"
    using \<open>(2::rat) powi e = 1 / 2 ^ nat (- e)\<close> by simp
  finally show ?thesis .
qed

section \<open>Bounds of the scores\<close>

lemma fl_100: "fl 100 = 100"
  using fl_int [of 100] by simp

lemma tenth_range:
  assumes "0 \<le> k" "k \<le> 1000"
  shows "0 \<le> fl (of_int k / 10)" "fl (of_int k / 10) \<le> 100"
proof -
  from assms(1) have nn: "(0::rat) \<le> of_int k / 10" by simp
  then show "0 \<le> fl (of_int k / 10)" by (rule fl_nonneg)
  from assms(2) have "(of_int k :: rat) \<le> 1000"
    using of_int_le_iff [of k 1000, where ?'a = rat] by simp
  then have "(of_int k :: rat) / 10 \<le> 100" by simp
  with nn have "fl (of_int k / 10) \<le> fl 100" by (rule fl_mono_nonneg)
  then show "fl (of_int k / 10) \<le> 100" by (simp add: fl_100)
qed

lemma rhe_below_half:
  assumes "q < of_int k + 1 / 2"
  shows "round_half_even q \<le> k"
proof -
  have "(of_int (round_half_even q) :: rat) \<le> q + 1 / 2" by (rule rhe_upper)
  with assms have "(of_int (round_half_even q) :: rat) < of_int (k + 1)" by simp
  then have "round_half_even q < k + 1" by (simp only: of_int_less_iff)
  then show ?thesis by simp
qed

lemma percent_ok:
  assumes "overlap \<le> denom" "1 \<le> denom"
  shows "\<exists>k. 0 \<le> k \<and> k \<le> 1000 \<and> percent overlap denom = Inr (fl (of_int k / 10))"
proof -
  define a where "a = float_of_int (int overlap)"
  define b where "b = float_of_int (int denom)"
  define p where "p = fmul 100 a"
  define x where "x = fl (p / b)"
  from assms(2) have "(0::rat) < of_int (int denom)" by simp
  then have b: "0 < b" unfolding b_def float_of_int_def by (rule fl_pos)
  then have eq: "percent overlap denom = Inr (py_round x 1)"
    by (simp add: percent_def fdiv_def a_def b_def p_def x_def)
  have round: "py_round x 1 = fl (of_int (round_half_even (x * 10)) / 10)"
    by (simp add: py_round_def)
  have "0 \<le> x \<and> x * 10 < 1000 + 1 / 2"
  proof (cases "overlap = 0")
    case True
    then have "x = 0" by (simp add: x_def p_def a_def fmul_def float_of_int_def)
    then show ?thesis by simp
  next
    case False
    then have o: "(0::rat) < of_int (int overlap)" by simp
    then have a: "0 < a" unfolding a_def float_of_int_def by (rule fl_pos)
    from assms(1) have "(of_int (int overlap) :: rat) \<le> of_int (int denom)" by simp
    with o have ab: "a \<le> b" unfolding a_def b_def float_of_int_def by (rule fl_mono_pos)
    from a have pa: "0 < 100 * a" by simp
    then have p: "0 < p" unfolding p_def fmul_def by (rule fl_pos)
    from pa have "p \<le> 100 * a * (1 + 1 / 2 ^ 53)"
      unfolding p_def fmul_def by (rule fl_rel_upper)
    also from ab have "\<dots> \<le> 100 * b * (1 + 1 / 2 ^ 53)" by simp
    finally have "p \<le> 100 * (1 + 1 / 2 ^ 53) * b" by (simp add: mult_ac)
    with b have pb: "p / b \<le> 100 * (1 + 1 / 2 ^ 53)" by (simp add: pos_divide_le_eq)
    from p b have pos: "0 < p / b" by simp
    then have "0 < x" unfolding x_def by (rule fl_pos)
    then have xpos: "0 \<le> x" by simp
    from pos have "x \<le> p / b * (1 + 1 / 2 ^ 53)"
      unfolding x_def by (rule fl_rel_upper)
    also from pb have "\<dots> \<le> 100 * (1 + 1 / 2 ^ 53) * (1 + 1 / 2 ^ 53)"
      by (intro mult_right_mono) simp_all
    finally have "x \<le> 100 * (1 + 1 / 2 ^ 53) * (1 + 1 / 2 ^ 53)" .
    then have "x * 10 < 1000 + 1 / 2" by simp
    with xpos show ?thesis by simp
  qed
  then have "0 \<le> round_half_even (x * 10)" "round_half_even (x * 10) \<le> 1000"
    using rhe_ge_int [of 0 "x * 10"] rhe_below_half [of "x * 10" 1000] by simp_all
  with eq round show ?thesis by auto
qed

lemma match_and_missing_ok:
  "\<exists>k missing. 0 \<le> k \<and> k \<le> 1000 \<and>
     match_and_missing resume job = Inr (fl (of_int k / 10), missing)"
proof (cases "extract_skills job = {}")
  case True
  let ?R = "set (normalize_text resume)" and ?J = "set (normalize_text job)"
  have "card (?R \<inter> ?J) \<le> card ?J" by (intro card_mono) simp_all
  then have "card (?R \<inter> ?J) \<le> max 1 (card ?J)" by simp
  from percent_ok [OF this] obtain k where
    "0 \<le> k" "k \<le> 1000" "percent (card (?R \<inter> ?J)) (max 1 (card ?J)) = Inr (fl (of_int k / 10))"
    by auto
  with True show ?thesis by (auto simp: match_and_missing_def Let_def)
next
  case False
  let ?R = "extract_skills resume" and ?J = "extract_skills job"
  have "finite ?J" by (simp add: extract_skills_def)
  then have "card (?R \<inter> ?J) \<le> card ?J" by (intro card_mono) simp_all
  then have "card (?R \<inter> ?J) \<le> max 1 (card ?J)" by simp
  from percent_ok [OF this] obtain k where
    "0 \<le> k" "k \<le> 1000" "percent (card (?R \<inter> ?J)) (max 1 (card ?J)) = Inr (fl (of_int k / 10))"
    by auto
  with False show ?thesis by (auto simp: match_and_missing_def Let_def)
qed

lemma penalty_nonneg: "0 \<le> min 30 (fmul 5 (float_of_int (int n)))"
proof -
  have "(0::rat) \<le> of_int (int n)" by simp
  then have "0 \<le> float_of_int (int n)" unfolding float_of_int_def by (rule fl_nonneg)
  then have "0 \<le> 5 * float_of_int (int n)" by simp
  then have "0 \<le> fmul 5 (float_of_int (int n))" unfolding fmul_def by (rule fl_nonneg)
  then show ?thesis by simp
qed

lemma ats_le:
  assumes "0 \<le> k" "k \<le> 1000" "0 \<le> pen"
  shows "py_round (max 0 (min 100 (fsub (fl (of_int k / 10)) pen))) 1 \<le> fl (of_int k / 10)"
proof -
  define mp where "mp = fl (of_int k / 10)"
  define c where "c = max 0 (min 100 (fsub mp pen))"
  have c0: "0 \<le> c" by (simp add: c_def)
  have "round_half_even (c * 10) \<le> k"
  proof (cases "mp - pen \<le> 0")
    case True
    then have "fsub mp pen \<le> 0" unfolding fsub_def by (rule fl_nonpos)
    then have "c = 0" by (simp add: c_def)
    with assms(1) show ?thesis using rhe_of_int [of 0] by simp
  next
    case False
    then have d: "0 < mp - pen" by simp
    with assms(3) have mp: "0 < mp" by simp
    have "k \<noteq> 0" using mp by (auto simp: mp_def)
    with assms(1) have k: "(0::rat) < of_int k / 10" by simp
    then have "mp \<le> of_int k / 10 * (1 + 1 / 2 ^ 53)"
      unfolding mp_def by (rule fl_rel_upper)
    moreover from d have "fsub mp pen \<le> (mp - pen) * (1 + 1 / 2 ^ 53)"
      unfolding fsub_def by (rule fl_rel_upper)
    moreover from assms(3) have "(mp - pen) * (1 + 1 / 2 ^ 53) \<le> mp * (1 + 1 / 2 ^ 53)"
      by (intro mult_right_mono) simp_all
    moreover have "mp * (1 + 1 / 2 ^ 53) \<le> of_int k / 10 * (1 + 1 / 2 ^ 53) * (1 + 1 / 2 ^ 53)"
      using calculation(1) by (intro mult_right_mono) simp_all
    ultimately have f: "fsub mp pen \<le> of_int k / 10 * (1 + 1 / 2 ^ 53) * (1 + 1 / 2 ^ 53)"
      by linarith
    from d have "0 < fsub mp pen" unfolding fsub_def by (rule fl_pos)
    then have "c \<le> fsub mp pen" by (simp add: c_def)
    with f have "c \<le> of_int k / 10 * ((1 + 1 / 2 ^ 53) * (1 + 1 / 2 ^ 53))"
      by (simp add: mult.assoc)
    then have "c * 10 \<le> of_int k * ((1 + 1 / 2 ^ 53) * (1 + 1 / 2 ^ 53))" by simp
    also have "\<dots> = of_int k + of_int k * ((1 + 1 / 2 ^ 53) * (1 + 1 / 2 ^ 53) - 1)"
      by (simp add: algebra_simps)
    also have "of_int k * ((1 + 1 / 2 ^ 53) * (1 + 1 / 2 ^ 53) - 1) \<le>
        (1000::rat) * ((1 + 1 / 2 ^ 53) * (1 + 1 / 2 ^ 53) - 1)"
      using assms(2) of_int_le_iff [of k 1000, where ?'a = rat]
      by (intro mult_right_mono) simp_all
    also have "(1000::rat) * ((1 + 1 / 2 ^ 53) * (1 + 1 / 2 ^ 53) - 1) < 1 / 2" by simp
    finally have "c * 10 < of_int k + 1 / 2" by simp
    then show ?thesis by (rule rhe_below_half)
  qed
  moreover from c0 have "0 \<le> round_half_even (c * 10)"
    using rhe_ge_int [of 0 "c * 10"] by simp
  ultimately have "(0::rat) \<le> of_int (round_half_even (c * 10)) / 10"
    "(of_int (round_half_even (c * 10)) :: rat) / 10 \<le> of_int k / 10"
    by simp_all
  then have "fl (of_int (round_half_even (c * 10)) / 10) \<le> fl (of_int k / 10)"
    by (rule fl_mono_nonneg)
  then show ?thesis by (simp add: py_round_def c_def mp_def)
qed

lemma fl_numeral: "(numeral n :: int) < 2 ^ 53 \<Longrightarrow> fl (numeral n) = numeral n"
  using fl_int [of "numeral n"] by simp

lemma fl_one: "fl 1 = 1"
  using fl_int [of 1] by simp

lemma rhe_numeral: "round_half_even (numeral n) = numeral n"
  using rhe_of_int [of "numeral n"] by simp

lemma rhe_zero: "round_half_even 0 = 0"
  using rhe_of_int [of 0] by simp

lemmas float_eval =
  percent_def fdiv_def fmul_def fsub_def float_of_int_def py_round_def
  fl_numeral fl_one fl_zero rhe_numeral rhe_zero

lemma percent_1_2: "percent (Suc 0) 2 = Inr 50"
  by (simp add: float_eval)

lemma percent_0_1: "percent 0 (Suc 0) = Inr 0"
  by (simp add: float_eval)

lemmas token_eval =
  normalize_text_def tokens_of_def re_split_def str_def is_word_char_def
  strip_def is_space_def lower_def lower_cp_def KNOWN_SKILLS_def

lemma resume_tokens:
  "normalize_text (str ''I have Python and Docker experience'') =
     map str [''i'', ''have'', ''python'', ''and'', ''docker'', ''experience'']"
  by (simp add: token_eval)

lemma job_tokens:
  "normalize_text (str ''Looking for Python and Kubernetes skills'') =
     map str [''looking'', ''for'', ''python'', ''and'', ''kubernetes'', ''skills'']"
  by (simp add: token_eval)

lemma resume_skills:
  "extract_skills (str ''I have Python and Docker experience'') = {str ''python'', str ''docker''}"
  unfolding extract_skills_def resume_tokens by (simp add: KNOWN_SKILLS_def str_def)

lemma job_skills:
  "extract_skills (str ''Looking for Python and Kubernetes skills'') =
     {str ''python'', str ''kubernetes''}"
  unfolding extract_skills_def job_tokens by (simp add: KNOWN_SKILLS_def str_def)

lemma skills_distinct:
  "str ''python'' \<noteq> str ''docker''" "str ''python'' \<noteq> str ''kubernetes''"
  "str ''kubernetes'' \<noteq> str ''docker''" "str ''fastapi'' \<noteq> str ''python''"
  "str ''fastapi'' \<noteq> str ''docker''"
  by (simp_all add: str_def)

lemma example_match:
  "match_and_missing (str ''I have Python and Docker experience'')
     (str ''Looking for Python and Kubernetes skills'') = Inr (50, [str ''kubernetes''])"
proof -
  let ?rs = "{str ''python'', str ''docker''}" and ?js = "{str ''python'', str ''kubernetes''}"
  have inter: "?rs \<inter> ?js = {str ''python''}"
    using skills_distinct by auto
  have diff: "?js - ?rs = {str ''kubernetes''}"
    using skills_distinct by auto
  have cards: "card (?rs \<inter> ?js) = 1" "max 1 (card ?js) = 2"
    unfolding inter using skills_distinct by simp_all
  have "?js \<noteq> {}" by simp
  then show ?thesis
    unfolding match_and_missing_def resume_skills job_skills Let_def cards diff
    by (simp add: percent_1_2)
qed

lemma example_report:
  "report {str ''python'', str ''docker''} 50 [str ''kubernetes''] =
     \<lparr>match_percent = 50,
      missing_skills = [str ''kubernetes''],
      suggestions =
        [str ''Highlight relevant experience and quantify achievements with metrics (%, $, time).'',
         str ''Consider learning or emphasizing: kubernetes'',
         str ''Add FastAPI projects or APIs to showcase backend skills.'',
         str ''Explore Kubernetes basics to complement Docker skills.''],
      ats_score = 45\<rparr>"
proof -
  have ats: "py_round (max 0 (min 100 (fsub 50
      (min 30 (fmul 5 (float_of_int (int (length [str ''kubernetes'']))))))))  1 = 45"
    by (simp add: float_eval)
  have advice: "str ''Consider learning or emphasizing: '' @
      join (str '', '') (take 8 [str ''kubernetes'']) =
      str ''Consider learning or emphasizing: kubernetes''"
    by (simp add: str_def)
  have suggs: "suggestions_for {str ''python'', str ''docker''} 50 [str ''kubernetes''] =
      [str ''Highlight relevant experience and quantify achievements with metrics (%, $, time).'',
       str ''Consider learning or emphasizing: kubernetes'',
       str ''Add FastAPI projects or APIs to showcase backend skills.'',
       str ''Explore Kubernetes basics to complement Docker skills.'']"
    unfolding suggestions_for_def advice using skills_distinct by simp
  show ?thesis
    unfolding report_def Let_def ats suggs by simp
qed

lemma blank_tokens: "normalize_text [] = []" "normalize_text (str '' '') = []"
  by (simp_all add: token_eval)

lemma blank_skills: "extract_skills [] = {}" "extract_skills (str '' '') = {}"
  by (simp_all add: extract_skills_def blank_tokens)

lemma blank_match: "match_and_missing [] (str '' '') = Inr (0, [])"
  by (simp add: match_and_missing_def blank_skills blank_tokens percent_0_1)

lemma java_tokens:
  "normalize_text (str ''java spring'') = map str [''java'', ''spring'']"
  "normalize_text (str ''java developer'') = map str [''java'', ''developer'']"
  by (simp_all add: token_eval)

lemma java_skills: "extract_skills (str ''java developer'') = {}"
  unfolding extract_skills_def java_tokens by (simp add: KNOWN_SKILLS_def str_def)

lemma java_counts:
  "card (set (map str [''java'', ''spring'']) \<inter> set (map str [''java'', ''developer''])) = 1"
  "max 1 (card (set (map str [''java'', ''developer'']))) = 2"
proof -
  have d: "str ''java'' \<noteq> str ''developer''" "str ''spring'' \<noteq> str ''java''"
    "str ''spring'' \<noteq> str ''developer''"
    by (simp_all add: str_def)
  then have inter:
    "set (map str [''java'', ''spring'']) \<inter> set (map str [''java'', ''developer'']) =
      {str ''java''}" by auto
  show "card (set (map str [''java'', ''spring'']) \<inter>
      set (map str [''java'', ''developer''])) = 1" unfolding inter by simp
  from d show "max 1 (card (set (map str [''java'', ''developer'']))) = 2" by simp
qed

section \<open>Lines and white space\<close>

lemma splitlines_from_chars:
  "l \<in> set (splitlines_from cur s) \<Longrightarrow> set l \<subseteq> set cur \<union> set s"
proof (induction cur s arbitrary: l rule: splitlines_from.induct)
  case (1 cur)
  then show ?case by (simp split: if_splits)
next
  case (2 cur c)
  then show ?case by (auto split: if_splits)
next
  case (3 cur c d cs)
  then show ?case by (fastforce split: if_splits)
qed

lemma splitlines_chars: "l \<in> set (splitlines s) \<Longrightarrow> set l \<subseteq> set s"
  using splitlines_from_chars [of l "[]" s] by (simp add: splitlines_def)

lemma strip_all_space:
  assumes "\<forall>c \<in> set l. is_space c"
  shows "strip l = []"
proof -
  from assms have blank: "dropWhile is_space l = []" by simp
  show ?thesis unfolding strip_def blank by simp
qed

lemma stripped_lines_blank:
  assumes "\<forall>c \<in> set t. is_space c"
  shows "stripped_lines t = []"
proof -
  have "strip l = []" if "l \<in> set (splitlines t)" for l
    using that assms splitlines_chars [of l t] by (intro strip_all_space) blast
  then show ?thesis
    by (simp add: stripped_lines_def filter_empty_conv)
qed

lemma splitlines_from_no_break:
  "l \<in> set (splitlines_from cur s) \<Longrightarrow> \<forall>c \<in> set cur. \<not> is_linebreak c \<Longrightarrow>
     \<forall>c \<in> set l. \<not> is_linebreak c"
proof (induction cur s arbitrary: l rule: splitlines_from.induct)
  case (1 cur)
  then show ?case by (simp split: if_splits)
next
  case (2 cur c)
  then show ?case by (auto split: if_splits)
next
  case (3 cur c d cs)
  show ?case
  proof (cases "c = 13 \<and> d = 10")
    case True
    with "3.prems" have "l = cur \<or> l \<in> set (splitlines_from [] cs)" by simp
    with "3.IH"(1) [OF True] "3.prems"(2) show ?thesis by auto
  next
    case False
    show ?thesis
    proof (cases "is_linebreak c")
      case True
      with False "3.prems"(1) have "l = cur \<or> l \<in> set (splitlines_from [] (d # cs))"
        by (auto split: if_splits)
      with "3.IH"(2) [OF False True] "3.prems"(2) show ?thesis by auto
    next
      case nb: False
      with False "3.prems"(1) have "l \<in> set (splitlines_from (cur @ [c]) (d # cs))"
        by (auto split: if_splits)
      moreover from nb "3.prems"(2) have "\<forall>x \<in> set (cur @ [c]). \<not> is_linebreak x"
        by simp
      ultimately show ?thesis using "3.IH"(3) [OF False nb] by blast
    qed
  qed
qed

lemma splitlines_from_step:
  "\<not> is_linebreak c \<Longrightarrow> splitlines_from cur (c # s) = splitlines_from (cur @ [c]) s"
  by (cases s) (auto simp: is_linebreak_def)

lemma splitlines_from_append:
  "\<forall>c \<in> set l. \<not> is_linebreak c \<Longrightarrow>
     splitlines_from cur (l @ s) = splitlines_from (cur @ l) s"
  by (induction l arbitrary: cur) (simp_all add: splitlines_from_step)

lemma splitlines_from_NL:
  "splitlines_from cur (NL # s) = cur # splitlines_from [] s"
  by (cases s) (simp_all add: is_linebreak_def NL_def)

lemma splitlines_from_join:
  "\<forall>l \<in> set ls. l \<noteq> [] \<and> (\<forall>c \<in> set l. \<not> is_linebreak c) \<Longrightarrow>
     splitlines_from [] (join [NL] ls) = ls"
proof (induction "[NL]" ls rule: join.induct)
  case 1
  then show ?case by simp
next
  case (2 x)
  then show ?case using splitlines_from_append [of x "[]" "[]"] by simp
next
  case (3 x y ys)
  then show ?case
    using splitlines_from_append [of x "[]" "NL # join [NL] (y # ys)"]
    by (simp add: splitlines_from_NL)
qed

lemma splitlines_no_break:
  "l \<in> set (splitlines s) \<Longrightarrow> \<forall>c \<in> set l. \<not> is_linebreak c"
  using splitlines_from_no_break [of l "[]" s] by (simp add: splitlines_def)

lemma strip_id:
  assumes "l \<noteq> []" "\<not> is_space (hd l)" "\<not> is_space (last l)"
  shows "strip l = l"
proof -
  from assms have "dropWhile is_space l = l"
    by (cases l) simp_all
  moreover from assms have "dropWhile is_space (rev l) = rev l"
    by (cases "rev l") (simp_all add: hd_rev)
  ultimately show ?thesis by (simp add: strip_def)
qed

lemma summary_line:
  "str ''SUMMARY'' \<noteq> []" "strip (str ''SUMMARY'') = str ''SUMMARY''"
  "\<forall>c \<in> set (str ''SUMMARY''). \<not> is_linebreak c"
  "bulletize (str ''SUMMARY'') = str ''- SUMMARY''"
proof -
  show "str ''SUMMARY'' \<noteq> []" by (simp add: str_def)
  show "strip (str ''SUMMARY'') = str ''SUMMARY''"
    by (rule strip_id) (simp_all add: str_def is_space_def)
  show "\<forall>c \<in> set (str ''SUMMARY''). \<not> is_linebreak c"
    by (simp add: str_def is_linebreak_def)
  show "bulletize (str ''SUMMARY'') = str ''- SUMMARY''"
    by (simp add: bulletize_def startswith_def str_def)
qed

lemma sentence_line:
  "str ''Results-driven professional with measurable achievements.'' \<noteq> []"
  "strip (str ''Results-driven professional with measurable achievements.'') =
     str ''Results-driven professional with measurable achievements.''"
  "\<forall>c \<in> set (str ''Results-driven professional with measurable achievements.'').
     \<not> is_linebreak c"
  "bulletize (str ''Results-driven professional with measurable achievements.'') =
     str ''- Results-driven professional with measurable achievements.''"
proof -
  show "str ''Results-driven professional with measurable achievements.'' \<noteq> []"
    by (simp add: str_def)
  show "strip (str ''Results-driven professional with measurable achievements.'') =
     str ''Results-driven professional with measurable achievements.''"
    by (rule strip_id) (simp_all add: str_def is_space_def)
  show "\<forall>c \<in> set (str ''Results-driven professional with measurable achievements.'').
     \<not> is_linebreak c"
    by (simp add: str_def is_linebreak_def)
  show "bulletize (str ''Results-driven professional with measurable achievements.'') =
     str ''- Results-driven professional with measurable achievements.''"
    by (simp add: bulletize_def startswith_def str_def)
qed

lemma splitlines_header_join:
  assumes "\<forall>l \<in> set ls. l \<noteq> [] \<and> (\<forall>c \<in> set l. \<not> is_linebreak c)"
  shows "splitlines (header @ join [NL] ls) =
     str ''SUMMARY'' #
     str ''Results-driven professional with measurable achievements.'' # ls"
proof -
  let ?S = "str ''SUMMARY''"
  let ?R = "str ''Results-driven professional with measurable achievements.''"
  have "splitlines (header @ join [NL] ls) =
      splitlines_from [] (?S @ (NL # (?R @ (NL # join [NL] ls))))"
    by (simp add: splitlines_def header_def)
  also have "\<dots> = ?S # splitlines_from [] (?R @ (NL # join [NL] ls))"
    using splitlines_from_append [OF summary_line(3), of "[]"]
    by (simp add: splitlines_from_NL)
  also have "\<dots> = ?S # ?R # splitlines_from [] (join [NL] ls)"
    using splitlines_from_append [OF sentence_line(3), of "[]"]
    by (simp add: splitlines_from_NL)
  finally show ?thesis
    using splitlines_from_join [OF assms] by simp
qed

lemma already_bulleted_lines:
  assumes "already_bulleted t" "l \<in> set (splitlines t)"
  shows "l \<noteq> []" "strip l = l" "startswith l (str ''-'')" "bulletize l = l"
  using assms by (auto simp: already_bulleted_def list_all_iff bulletize_def)

lemma optimize_resume_once:
  assumes "already_bulleted t"
  shows "optimize_resume t = header @ join [NL] (splitlines t)"
proof -
  let ?L = "splitlines t"
  have "filter (\<lambda>l. strip l \<noteq> []) ?L = ?L"
    using already_bulleted_lines(1,2) [OF assms] by (simp add: filter_id_conv)
  moreover have "map strip ?L = ?L"
    using already_bulleted_lines(2) [OF assms] by (simp add: map_idI)
  moreover have "map bulletize ?L = ?L"
    using already_bulleted_lines(4) [OF assms] by (simp add: map_idI)
  ultimately show ?thesis
    by (simp add: optimize_resume_def stripped_lines_def)
qed

lemma optimize_resume_header_lines:
  assumes "\<forall>l \<in> set ls. l \<noteq> [] \<and> (\<forall>c \<in> set l. \<not> is_linebreak c)"
    and "\<forall>l \<in> set ls. strip l = l" and "\<forall>l \<in> set ls. bulletize l = l"
  shows "optimize_resume (header @ join [NL] ls) =
     header @ join [NL]
       (str ''- SUMMARY'' #
        str ''- Results-driven professional with measurable achievements.'' # ls)"
proof -
  let ?S = "str ''SUMMARY''"
  let ?R = "str ''Results-driven professional with measurable achievements.''"
  from assms(1) have lines: "splitlines (header @ join [NL] ls) = ?S # ?R # ls"
    by (rule splitlines_header_join)
  from assms(1,2) have "filter (\<lambda>l. strip l \<noteq> []) ls = ls"
    by (simp add: filter_id_conv)
  moreover from assms(2) have "map strip ls = ls" by (simp add: map_idI)
  ultimately have "stripped_lines (header @ join [NL] ls) = ?S # ?R # ls"
    by (simp add: stripped_lines_def lines summary_line sentence_line)
  moreover from assms(3) have "map bulletize ls = ls" by (simp add: map_idI)
  ultimately show ?thesis
    by (simp add: optimize_resume_def summary_line sentence_line)
qed

lemma length_join_Cons: "length (join sep ls) \<le> length (join sep (x # ls))"
  by (cases ls) simp_all

lemma join_two_more: "sep \<noteq> [] \<Longrightarrow> join sep (x # y # ls) \<noteq> join sep ls"
proof -
  assume "sep \<noteq> []"
  then have "0 < length sep" by simp
  moreover have "length (join sep (x # y # ls)) =
      length x + length sep + length (join sep (y # ls))" by simp
  moreover have "length (join sep ls) \<le> length (join sep (y # ls))"
    by (rule length_join_Cons)
  ultimately have less: "length (join sep ls) < length (join sep (x # y # ls))"
    by linarith
  show ?thesis
  proof
    assume "join sep (x # y # ls) = join sep ls"
    then have "length (join sep (x # y # ls)) = length (join sep ls)" by (simp only:)
    with less show False by linarith
  qed
qed

lemma bullet_a:
  "splitlines (str ''- a'') = [str ''- a'']" "strip (str ''- a'') = str ''- a''"
  by (simp_all add: str_def splitlines_def is_linebreak_def strip_def is_space_def)

lemma already_bulleted_a: "already_bulleted (str ''- a'')"
  by (simp add: already_bulleted_def bullet_a) (simp add: startswith_def str_def)

section \<open>Tokens never contain a slash\<close>

lemma re_split_from_word:
  "t \<in> set (re_split_from cur s) \<Longrightarrow> \<forall>c \<in> set cur. is_word_char c \<Longrightarrow>
     \<forall>c \<in> set t. is_word_char c"
proof (induction cur s arbitrary: t rule: re_split_from.induct)
  case (1 cur)
  then show ?case by simp
next
  case (2 cur c cs)
  show ?case
  proof (cases "is_word_char c")
    case True
    with "2.prems" have "t \<in> set (re_split_from (cur @ [c]) cs)" 
      and "\<forall>x \<in> set (cur @ [c]). is_word_char x" by simp_all
    then show ?thesis using "2.IH"(1) [OF True] by blast
  next
    case False
    with "2.prems"(1) have
      "t = cur \<or> t \<in> set (re_split_from [] (dropWhile (\<lambda>d. \<not> is_word_char d) cs))"
      by simp
    then show ?thesis
    proof
      assume "t = cur"
      with "2.prems"(2) show ?thesis by simp
    next
      assume "t \<in> set (re_split_from [] (dropWhile (\<lambda>d. \<not> is_word_char d) cs))"
      moreover have "\<forall>c \<in> set ([]::nat list). is_word_char c" by simp
      ultimately show ?thesis by (rule "2.IH"(2) [OF False])
    qed
  qed
qed

lemma set_strip: "set (strip t) \<subseteq> set t"
proof -
  have "set (strip t) \<subseteq> set (dropWhile is_space t)"
    unfolding strip_def using set_dropWhileD [of _ is_space "rev (dropWhile is_space t)"]
    by auto
  also have "\<dots> \<subseteq> set t"
    using set_dropWhileD [of _ is_space t] by auto
  finally show ?thesis .
qed

lemma lower_cp_slash: "is_word_char c \<Longrightarrow> 47 \<notin> set (lower_cp c)"
  by (auto simp: is_word_char_def lower_cp_def)

lemma tokens_of_no_slash:
  assumes "t \<in> set (tokens_of s)"
  shows "47 \<notin> set t"
proof -
  from assms obtain u where u: "u \<in> set (re_split s)" and t: "t = lower (strip u)"
    by (auto simp: tokens_of_def)
  from u have "\<forall>c \<in> set u. is_word_char c"
    using re_split_from_word [of u "[]" s] by (simp add: re_split_def)
  with set_strip [of u] have "\<forall>c \<in> set (strip u). is_word_char c" by blast
  then show ?thesis
    using lower_cp_slash by (auto simp: t lower_def)
qed

lemma merge_skills_no_slash:
  "\<forall>t \<in> set ts. 47 \<notin> set t \<Longrightarrow> \<forall>t \<in> set (merge_skills ts). 47 \<notin> set t"
proof (induction ts rule: merge_skills.induct)
  case 1
  then show ?case by simp
next
  case (2 current)
  then show ?case by simp
next
  case (3 current nxt rest)
  have space: "47 \<notin> set (str '' '')" by (simp add: str_def)
  show ?case
  proof (cases "nxt \<noteq> [] \<and> current @ str '' '' @ nxt \<in> KNOWN_SKILLS")
    case True
    from "3.prems" have "\<forall>t \<in> set rest. 47 \<notin> set t" by simp
    then have "\<forall>t \<in> set (merge_skills rest). 47 \<notin> set t"
      by (rule "3.IH"(1) [OF True])
    moreover from "3.prems" space have "47 \<notin> set (current @ str '' '' @ nxt)" by simp
    ultimately show ?thesis using True by simp
  next
    case False
    from "3.prems" have "\<forall>t \<in> set (nxt # rest). 47 \<notin> set t" by simp
    then have "\<forall>t \<in> set (merge_skills (nxt # rest)). 47 \<notin> set t"
      by (rule "3.IH"(2) [OF False])
    moreover from "3.prems" have "47 \<notin> set current" by simp
    ultimately show ?thesis using False by auto
  qed
qed

lemma normalize_text_no_slash: "t \<in> set (normalize_text s) \<Longrightarrow> 47 \<notin> set t"
  using merge_skills_no_slash [of "tokens_of s"] tokens_of_no_slash
  by (auto simp: normalize_text_def)

lemma normalize_ci_cd: "normalize_text (str ''ci/cd'') = [str ''ci'', str ''cd'']"
  by (simp add: normalize_text_def tokens_of_def re_split_def str_def is_word_char_def
      strip_def is_space_def lower_def lower_cp_def KNOWN_SKILLS_def)

section \<open>Formats and encoding\<close>

lemma lower_txt: "lower (str ''txt'') = str ''txt''"
  by (simp add: lower_def lower_cp_def str_def)

lemma lower_docx: "lower (str ''docx'') = str ''docx''"
  by (simp add: lower_def lower_cp_def str_def)

lemma lower_xml: "lower (str ''xml'') = str ''xml''"
  by (simp add: lower_def lower_cp_def str_def)

lemma formats_distinct:
  "str ''txt'' \<noteq> []" "str ''docx'' \<noteq> []" "str ''xml'' \<noteq> []"
  "str ''txt'' \<noteq> str ''pdf''" "str ''docx'' \<noteq> str ''pdf''" "str ''docx'' \<noteq> str ''txt''"
  "str ''xml'' \<noteq> str ''pdf''" "str ''xml'' \<noteq> str ''txt''" "str ''xml'' \<noteq> str ''docx''"
  by (simp_all add: str_def)

lemma generate_txt:
  "generate_resume_bytes e t (str ''txt'') =
     (case utf8_encode t of
        Inl err \<Rightarrow> Inl err
      | Inr bs \<Rightarrow> Inr (bs, str ''text/plain; charset=utf-8'', str ''resume.txt''))"
  by (simp add: generate_resume_bytes_def lower_txt formats_distinct)

lemma utf8_char_ok:
  "c < 1114112 \<Longrightarrow> \<not> (55296 \<le> c \<and> c \<le> 57343) \<Longrightarrow> \<exists>bs. utf8_char c = Inr bs"
  by (simp add: utf8_char_def)

lemma utf8_encode_ok: "encodable t \<Longrightarrow> \<exists>bs. utf8_encode t = Inr bs"
proof (induction t)
  case Nil
  then show ?case by simp
next
  case (Cons c cs)
  then obtain bs rest where "utf8_char c = Inr bs" "utf8_encode cs = Inr rest"
    using utf8_char_ok [of c] by (auto simp: encodable_def)
  then show ?case by simp
qed

lemma utf8_encode_ascii: "list_all (\<lambda>c. c < 128) t \<Longrightarrow> utf8_encode t = Inr (map of_nat t)"
  by (induction t) (simp_all add: utf8_char_def)

lemma utf8_euro: "encodable [233, 8364, 128512]"
  "utf8_encode [233, 8364, 128512] = Inr [195, 169, 226, 130, 172, 240, 159, 152, 128]"
  by (simp_all add: encodable_def utf8_char_def)

section \<open>Claims about the analyzer\<close>

text \<open>
  Claim C1. For the resume \<open>I have Python and Docker experience\<close> and the job
  description \<open>Looking for Python and Kubernetes skills\<close>, \<open>analyze_resume\<close> returns
  the match 50.0, the one missing skill \<open>kubernetes\<close> and the ATS score 45.0; its four
  suggestions end with the Kubernetes advice, since \<open>docker\<close> is a skill of the resume
  and \<open>kubernetes\<close> is not.
\<close>

theorem analyze_example:
  "analyze_resume (str ''I have Python and Docker experience'')
     (str ''Looking for Python and Kubernetes skills'') =
     Inr \<lparr>match_percent = 50,
      missing_skills = [str ''kubernetes''],
      suggestions =
        [str ''Highlight relevant experience and quantify achievements with metrics (%, $, time).'',
         str ''Consider learning or emphasizing: kubernetes'',
         str ''Add FastAPI projects or APIs to showcase backend skills.'',
         str ''Explore Kubernetes basics to complement Docker skills.''],
      ats_score = 45\<rparr>"
proof -
  let ?resume = "str ''I have Python and Docker experience''"
  let ?job = "str ''Looking for Python and Kubernetes skills''"
  have "extract_skills ?resume = {str ''python'', str ''docker''}"
    by (rule resume_skills)
  moreover have "match_and_missing ?resume ?job = Inr (50, [str ''kubernetes''])"
    by (rule example_match)
  ultimately have "analyze_resume ?resume ?job =
      Inr (report {str ''python'', str ''docker''} 50 [str ''kubernetes''])"
    by (simp add: analyze_resume_def)
  then show ?thesis by (simp only: example_report)
qed

text \<open>
  Claim C2. For every pair of texts, empty and blank ones included, \<open>analyze_resume\<close>
  returns a result, so that no division by zero is raised (the divisor is the float of
  \<open>max(1, \<dots>)\<close>, which is positive); its match is between 0 and 100, and it is rounded to
  one decimal: it is the float nearest to \<open>k / 10\<close> for an integer \<open>k\<close> from 0 to 1000.
\<close>

theorem match_percent_range:
  "\<exists>r k. analyze_resume resume job = Inr r \<and>
     0 \<le> match_percent r \<and> match_percent r \<le> 100 \<and>
     0 \<le> k \<and> k \<le> 1000 \<and> match_percent r = fl (of_int k / 10)"
proof -
  from match_and_missing_ok [of resume job] obtain k missing where
    k: "0 \<le> k" "k \<le> 1000" and
    m: "match_and_missing resume job = Inr (fl (of_int k / 10), missing)"
    by blast
  let ?r = "report (extract_skills resume) (fl (of_int k / 10)) missing"
  from m have "analyze_resume resume job = Inr ?r" by (simp add: analyze_resume_def)
  moreover have "match_percent ?r = fl (of_int k / 10)" by (simp add: report_def Let_def)
  ultimately show ?thesis using tenth_range [OF k] k by metis
qed

theorem match_percent_range_witness:
  "\<exists>r. analyze_resume [] (str '' '') = Inr r \<and> match_percent r = 0 \<and>
     0 \<le> match_percent r \<and> match_percent r \<le> 100"
proof -
  from match_percent_range [of "[]" "str '' ''"] obtain r where
    r: "analyze_resume [] (str '' '') = Inr r" "0 \<le> match_percent r" "match_percent r \<le> 100"
    by blast
  from r(1) have "r = report {} 0 []"
    by (simp add: analyze_resume_def blank_match blank_skills)
  then have "match_percent r = 0" by (simp add: report_def Let_def)
  with r show ?thesis by blast
qed

text \<open>
  Claim C3. For every pair of texts, if no skill is recognized in the job description,
  then \<open>analyze_resume\<close> returns no missing skill, and its match is the overlap of the
  raw tokens: \<open>round(100.0 * overlap / denom, 1)\<close>, where \<open>overlap\<close> counts the normalized
  tokens (not filtered by the vocabulary) common to both texts and \<open>denom\<close> is the number
  of tokens of the job description or 1, whichever is larger.
\<close>

theorem no_job_skills_fallback:
  "extract_skills job = {} \<Longrightarrow>
   \<exists>r x. analyze_resume resume job = Inr r \<and> missing_skills r = [] \<and>
     fdiv (fmul 100 (float_of_int (int (card
             (set (normalize_text resume) \<inter> set (normalize_text job))))))
          (float_of_int (int (max 1 (card (set (normalize_text job)))))) = Inr x \<and>
     match_percent r = py_round x 1"
proof -
  assume empty: "extract_skills job = {}"
  let ?o = "card (set (normalize_text resume) \<inter> set (normalize_text job))"
  let ?d = "max 1 (card (set (normalize_text job)))"
  have "(0::rat) < of_int (int ?d)" by simp
  then have "0 < float_of_int (int ?d)" unfolding float_of_int_def by (rule fl_pos)
  then obtain x where x: "fdiv (fmul 100 (float_of_int (int ?o))) (float_of_int (int ?d)) = Inr x"
    by (simp add: fdiv_def)
  then have "percent ?o ?d = Inr (py_round x 1)" by (simp add: percent_def)
  with empty have "match_and_missing resume job = Inr (py_round x 1, [])"
    by (simp add: match_and_missing_def Let_def)
  then have "analyze_resume resume job = Inr (report (extract_skills resume) (py_round x 1) [])"
    by (simp add: analyze_resume_def)
  moreover have "missing_skills (report (extract_skills resume) (py_round x 1) []) = []"
    "match_percent (report (extract_skills resume) (py_round x 1) []) = py_round x 1"
    by (simp_all add: report_def Let_def)
  ultimately show ?thesis using x by blast
qed

theorem no_job_skills_fallback_witness:
  "extract_skills (str ''java developer'') = {} \<and>
   (\<exists>r. analyze_resume (str ''java spring'') (str ''java developer'') = Inr r \<and>
      missing_skills r = [] \<and> match_percent r = 50)"
proof -
  from no_job_skills_fallback [OF java_skills, of "str ''java spring''"]
  obtain r x where
    r: "analyze_resume (str ''java spring'') (str ''java developer'') = Inr r"
      "missing_skills r = []" "match_percent r = py_round x 1" and
    x: "fdiv (fmul 100 (float_of_int (int (card
             (set (normalize_text (str ''java spring'')) \<inter>
              set (normalize_text (str ''java developer'')))))))
          (float_of_int (int (max 1 (card (set (normalize_text (str ''java developer''))))))) =
        Inr x"
    by blast
  from x have "x = 50"
    unfolding java_tokens java_counts by (simp add: float_eval)
  with r(3) have "match_percent r = 50" by (simp add: float_eval)
  with r java_skills show ?thesis by blast
qed

text \<open>
  Claim C4. For every pair of texts, the ATS score that \<open>analyze_resume\<close> returns is
  \<open>round(max(0.0, min(100.0, match_percent - penalty)), 1)\<close> with the penalty
  \<open>min(30.0, 5.0 * len(missing_skills))\<close>, and it is at most the match.
\<close>

theorem ats_score_le_match:
  "\<exists>r. analyze_resume resume job = Inr r \<and>
     ats_score r =
       py_round (max 0 (min 100 (fsub (match_percent r)
         (min 30 (fmul 5 (float_of_int (int (length (missing_skills r)))))))) ) 1 \<and>
     ats_score r \<le> match_percent r"
proof -
  from match_and_missing_ok [of resume job] obtain k missing where
    k: "0 \<le> k" "k \<le> 1000" and
    m: "match_and_missing resume job = Inr (fl (of_int k / 10), missing)"
    by blast
  let ?r = "report (extract_skills resume) (fl (of_int k / 10)) missing"
  from m have "analyze_resume resume job = Inr ?r" by (simp add: analyze_resume_def)
  moreover have "match_percent ?r = fl (of_int k / 10)" "missing_skills ?r = missing"
    "ats_score ?r = py_round (max 0 (min 100 (fsub (fl (of_int k / 10))
         (min 30 (fmul 5 (float_of_int (int (length missing)))))))) 1"
    by (simp_all add: report_def Let_def)
  moreover have "py_round (max 0 (min 100 (fsub (fl (of_int k / 10))
         (min 30 (fmul 5 (float_of_int (int (length missing)))))))) 1 \<le> fl (of_int k / 10)"
    using k penalty_nonneg by (rule ats_le)
  ultimately show ?thesis by (intro exI [of _ ?r]) simp
qed

theorem ats_score_le_match_witness:
  "\<exists>r. analyze_resume (str ''I have Python and Docker experience'')
          (str ''Looking for Python and Kubernetes skills'') = Inr r \<and>
     ats_score r = 45 \<and> match_percent r = 50 \<and> ats_score r \<le> match_percent r"
proof -
  from ats_score_le_match [of "str ''I have Python and Docker experience''"
      "str ''Looking for Python and Kubernetes skills''"]
  obtain r where
    r: "analyze_resume (str ''I have Python and Docker experience'')
          (str ''Looking for Python and Kubernetes skills'') = Inr r"
      "ats_score r \<le> match_percent r"
    by blast
  from r(1) have "r = report {str ''python'', str ''docker''} 50 [str ''kubernetes'']"
    by (simp add: analyze_resume_def example_match resume_skills)
  then have "ats_score r = 45" "match_percent r = 50"
    by (simp_all add: example_report)
  with r show ?thesis by blast
qed
section \<open>Claims about the resume optimizer\<close>

text \<open>
  Claim C10. For an empty or white-space-only resume text (every character of it is
  white space), \<open>optimize_resume\<close> returns exactly the fixed two-line header, the line
  \<open>SUMMARY\<close> and the fixed summary sentence, each ended by a line feed, with no bullet
  line after it.
\<close>

theorem optimize_resume_blank:
  "\<forall>c \<in> set t. is_space c \<Longrightarrow>
     optimize_resume t = str ''SUMMARY'' @ [10] @
       str ''Results-driven professional with measurable achievements.'' @ [10]"
  by (simp add: optimize_resume_def stripped_lines_blank header_def NL_def)

theorem optimize_resume_blank_witness:
  "list_all is_space (str '' '') \<and>
   optimize_resume [] = header \<and>
   optimize_resume (str '' '') = str ''SUMMARY'' @ [10] @
       str ''Results-driven professional with measurable achievements.'' @ [10]"
  using optimize_resume_blank [of "str '' ''"] optimize_resume_blank [of "[]"]
  by (simp add: str_def is_space_def header_def NL_def)

text \<open>
  Claim C5, as amended. For every input text in which every line already starts with
  the bullet marker, is already trimmed and is not blank, \<open>optimize_resume\<close> returns
  the header followed by the lines of the input unchanged, joined by line feeds; a
  second application keeps those lines unchanged, turns the two header lines of the
  first result into bullet lines and puts a fresh header in front of them; so the
  second result is never the first.
\<close>

theorem optimize_resume_twice:
  assumes "already_bulleted t"
  shows "optimize_resume t = header @ join [NL] (splitlines t) \<and>
     optimize_resume (optimize_resume t) =
       header @ join [NL]
         (str ''- SUMMARY'' #
          str ''- Results-driven professional with measurable achievements.'' #
          splitlines t) \<and>
     optimize_resume (optimize_resume t) \<noteq> optimize_resume t"
proof -
  let ?L = "splitlines t"
  let ?B = "str ''- SUMMARY'' #
     str ''- Results-driven professional with measurable achievements.'' # ?L"
  from assms have once: "optimize_resume t = header @ join [NL] ?L"
    by (rule optimize_resume_once)
  have "\<forall>l \<in> set ?L. l \<noteq> [] \<and> (\<forall>c \<in> set l. \<not> is_linebreak c)"
    using already_bulleted_lines(1) [OF assms] splitlines_no_break by blast
  moreover have "\<forall>l \<in> set ?L. strip l = l" "\<forall>l \<in> set ?L. bulletize l = l"
    using already_bulleted_lines(2,4) [OF assms] by blast+
  ultimately have "optimize_resume (header @ join [NL] ?L) = header @ join [NL] ?B"
    by (rule optimize_resume_header_lines)
  then have twice: "optimize_resume (optimize_resume t) = header @ join [NL] ?B"
    by (simp only: once)
  have "join [NL] ?B \<noteq> join [NL] ?L" by (rule join_two_more) simp
  then have "header @ join [NL] ?B \<noteq> header @ join [NL] ?L" by simp
  with once twice show ?thesis by (simp only: simp_thms)
qed

theorem optimize_resume_twice_witness:
  "already_bulleted (str ''- a'') \<and>
   optimize_resume (str ''- a'') = header @ str ''- a'' \<and>
   optimize_resume (optimize_resume (str ''- a'')) =
     header @ str ''- SUMMARY'' @ [NL] @
       str ''- Results-driven professional with measurable achievements.'' @ [NL] @
       str ''- a''"
proof -
  note twice = optimize_resume_twice [OF already_bulleted_a, unfolded bullet_a]
  from twice [THEN conjunct1] twice [THEN conjunct2, THEN conjunct1] already_bulleted_a
  show ?thesis by (intro conjI) simp_all
qed

text \<open>
  Claim C5 as stated fails: on the already bulleted, trimmed one-line input \<open>- a\<close>
  the second application differs from the first.
\<close>

theorem optimize_resume_not_idempotent:
  "already_bulleted (str ''- a'') \<and>
   optimize_resume (optimize_resume (str ''- a'')) \<noteq> optimize_resume (str ''- a'')"
proof -
  have once: "optimize_resume (str ''- a'') = header @ str ''- a''"
    using optimize_resume_once [OF already_bulleted_a] by (simp add: bullet_a)
  have "optimize_resume (header @ join [NL] [str ''- a'']) =
      header @ join [NL] [str ''- SUMMARY'',
        str ''- Results-driven professional with measurable achievements.'', str ''- a'']"
    by (rule optimize_resume_header_lines)
      (simp_all add: bullet_a bulletize_def startswith_def, simp_all add: str_def is_linebreak_def)
  then have twice: "optimize_resume (header @ str ''- a'') =
      header @ str ''- SUMMARY'' @ [NL] @
        str ''- Results-driven professional with measurable achievements.'' @ [NL] @
        str ''- a''"
    by simp
  have "str ''- SUMMARY'' @ [NL] @
       str ''- Results-driven professional with measurable achievements.'' @ [NL] @
       str ''- a'' \<noteq> str ''- a''"
    by (simp add: str_def)
  then have "optimize_resume (optimize_resume (str ''- a'')) \<noteq>
      optimize_resume (str ''- a'')"
    unfolding once twice by simp
  with already_bulleted_a show ?thesis by simp
qed

section \<open>Claims about the skill extractor\<close>

text \<open>
  Claim C6. The skill \<open>ci/cd\<close> is in the vocabulary, and for every input text it is
  not in the extracted skill set: the tokenizer splits at the slash (the text \<open>ci/cd\<close>
  is normalized to the two tokens \<open>ci\<close> and \<open>cd\<close>), and the merge joins two tokens with a
  space, giving \<open>ci cd\<close>, which is not in the vocabulary.
\<close>

theorem ci_cd_unreachable:
  "str ''ci/cd'' \<in> KNOWN_SKILLS \<and>
   normalize_text (str ''ci/cd'') = [str ''ci'', str ''cd''] \<and>
   str ''ci cd'' \<notin> KNOWN_SKILLS \<and>
   str ''ci/cd'' \<notin> extract_skills s"
proof -
  have "str ''ci/cd'' \<in> KNOWN_SKILLS"
    by (simp add: KNOWN_SKILLS_def)
  moreover have "str ''ci cd'' \<notin> KNOWN_SKILLS"
    by (simp add: KNOWN_SKILLS_def str_def)
  moreover have "47 \<in> set (str ''ci/cd'')"
    by (simp add: str_def)
  then have "str ''ci/cd'' \<notin> extract_skills s"
    using normalize_text_no_slash [of "str ''ci/cd''" s] by (auto simp: extract_skills_def)
  ultimately show ?thesis using normalize_ci_cd by blast
qed

section \<open>Claims about the document exporter\<close>

text \<open>
  Claim C7, as amended. For every input text that holds no surrogate code point (every
  text that has a UTF-8 encoding), \<open>generate_resume_bytes\<close> with format \<open>txt\<close> returns
  exactly the UTF-8 encoding of the text, with media type \<open>text/plain; charset=utf-8\<close>
  and file name \<open>resume.txt\<close>; the empty text gives no bytes, and the text \<open>A\<close>, two
  line feeds, \<open>B\<close> gives the four bytes 65, 10, 10, 66.
\<close>

theorem generate_txt_utf8:
  "(encodable t \<longrightarrow>
      (\<exists>bs. utf8_encode t = Inr bs \<and>
         generate_resume_bytes e t (str ''txt'') =
           Inr (bs, str ''text/plain; charset=utf-8'', str ''resume.txt''))) \<and>
   generate_resume_bytes e [] (str ''txt'') =
     Inr ([], str ''text/plain; charset=utf-8'', str ''resume.txt'') \<and>
   generate_resume_bytes e (str ''A'' @ [NL, NL] @ str ''B'') (str ''txt'') =
     Inr ([65, 10, 10, 66], str ''text/plain; charset=utf-8'', str ''resume.txt'')"
proof (intro conjI impI)
  assume "encodable t"
  then obtain bs where "utf8_encode t = Inr bs" using utf8_encode_ok by blast
  then show "\<exists>bs. utf8_encode t = Inr bs \<and>
         generate_resume_bytes e t (str ''txt'') =
           Inr (bs, str ''text/plain; charset=utf-8'', str ''resume.txt'')"
    by (simp add: generate_txt)
next
  show "generate_resume_bytes e [] (str ''txt'') =
     Inr ([], str ''text/plain; charset=utf-8'', str ''resume.txt'')"
    by (simp add: generate_txt)
next
  have "utf8_encode (str ''A'' @ [NL, NL] @ str ''B'') = Inr [65, 10, 10, 66]"
    by (simp add: str_def NL_def utf8_char_def)
  then show "generate_resume_bytes e (str ''A'' @ [NL, NL] @ str ''B'') (str ''txt'') =
     Inr ([65, 10, 10, 66], str ''text/plain; charset=utf-8'', str ''resume.txt'')"
    by (simp add: generate_txt)
qed

theorem generate_txt_utf8_witness:
  "encodable [233, 8364, 128512] \<and>
   generate_resume_bytes plain_env [233, 8364, 128512] (str ''txt'') =
     Inr ([195, 169, 226, 130, 172, 240, 159, 152, 128],
          str ''text/plain; charset=utf-8'', str ''resume.txt'')"
  using generate_txt_utf8 [of "[233, 8364, 128512]" plain_env] utf8_euro by simp

text \<open>
  Claim C7 as stated fails: a text can hold a lone surrogate, and on the one-character
  text U+D800 the encoding raises \<open>UnicodeEncodeError\<close>, so no bytes are returned.
\<close>

theorem generate_txt_surrogate:
  "generate_resume_bytes plain_env [55296] (str ''txt'') = Inl UnicodeEncodeError"
  by (simp add: generate_txt utf8_char_def)

text \<open>
  Claim C8. For every non-empty format string whose lowercasing is none of \<open>pdf\<close>,
  \<open>docx\<close> and \<open>txt\<close>, \<open>generate_resume_bytes\<close> raises \<open>ValueError\<close> with the message
  \<open>Unsupported format\<close>, whatever the text and the runtime, and returns no artifact.
\<close>

theorem generate_unsupported:
  "fmt \<noteq> [] \<Longrightarrow> lower fmt \<noteq> str ''pdf'' \<Longrightarrow> lower fmt \<noteq> str ''docx'' \<Longrightarrow>
   lower fmt \<noteq> str ''txt'' \<Longrightarrow>
     generate_resume_bytes e t fmt = Inl (ValueError (str ''Unsupported format''))"
  by (simp add: generate_resume_bytes_def)

theorem generate_unsupported_witness:
  "str ''xml'' \<noteq> [] \<and> lower (str ''xml'') = str ''xml'' \<and>
   str ''xml'' \<noteq> str ''pdf'' \<and> str ''xml'' \<noteq> str ''docx'' \<and> str ''xml'' \<noteq> str ''txt'' \<and>
   generate_resume_bytes plain_env (str ''my resume'') (str ''xml'') =
     Inl (ValueError (str ''Unsupported format''))"
  using generate_unsupported [of "str ''xml''" plain_env "str ''my resume''"]
  by (simp add: lower_xml formats_distinct)

text \<open>
  Claim C9. For every input text, when the optional library is absent
  (\<open>_DOCX_AVAILABLE\<close> is false), \<open>generate_resume_bytes\<close> with format \<open>docx\<close> raises
  \<open>RuntimeError\<close> with the message that DOCX export requires the library; it produces
  no bytes, and the error is not the \<open>ValueError\<close> of a bad format argument.
\<close>

theorem generate_docx_unavailable:
  "\<not> DOCX_AVAILABLE e \<Longrightarrow>
     generate_resume_bytes e t (str ''docx'') =
       Inl (RuntimeError (str ''DOCX export requires python-docx. Please install it.'')) \<and>
     (\<forall>msg. generate_resume_bytes e t (str ''docx'') \<noteq> Inl (ValueError msg))"
  by (simp add: generate_resume_bytes_def lower_docx formats_distinct)

theorem generate_docx_unavailable_witness:
  "DOCX_AVAILABLE plain_env = False \<and>
   generate_resume_bytes plain_env (str ''my resume'') (str ''docx'') =
     Inl (RuntimeError (str ''DOCX export requires python-docx. Please install it.''))"
  using generate_docx_unavailable [of plain_env "str ''my resume''"]
  by (simp add: plain_env_def)

end
